theory Spec2Isabelle
  imports Main
begin

section \<open>Python strings and the string operations the build script uses\<close>

text \<open>
  A Python \<open>str\<close> is modelled as a \<open>string\<close>, a list of characters. Isabelle's
  \<open>char\<close> has 256 values, read here as the code points below 256; on that range the
  classifications below (decimal digit, whitespace) are Python's.
\<close>

definition LF :: char where
  "LF = CHR 0x0A"

definition CR :: char where
  "CR = CHR 0x0D"

definition DQ :: char where
  "DQ = CHR 0x22"

datatype py_error = ValueError | FileNotFoundError

text \<open>\<open>s.startswith(p)\<close>.\<close>

definition startswith :: "string \<Rightarrow> string \<Rightarrow> bool" where
  "startswith s p = (take (length p) s = p)"

text \<open>
  \<open>s.split(sep)\<close> for a one-character separator: the pieces between the separators,
  empty pieces included; the result is never the empty list (\<open>''''.split('.')\<close> is
  \<open>['''']\<close>), so the last branch of the \<open>case\<close> is never taken.
\<close>

fun split_on :: "char \<Rightarrow> string \<Rightarrow> string list" where
  "split_on sep [] = [[]]"
| "split_on sep (c # cs) =
     (if c = sep then [] # split_on sep cs
      else (case split_on sep cs of
              p # ps \<Rightarrow> (c # p) # ps
            | [] \<Rightarrow> [[c]]))"

text \<open>\<open>sep.join(parts)\<close>.\<close>

fun join :: "string \<Rightarrow> string list \<Rightarrow> string" where
  "join sep [] = []"
| "join sep [p] = p"
| "join sep (p # q # ps) = p @ sep @ join sep (q # ps)"

subsection \<open>\<open>int(s)\<close> and \<open>str(n)\<close>\<close>

text \<open>
  \<open>int(s)\<close> in base 10: surrounding whitespace is skipped, then an optional sign, then
  decimal digits, where single underscores may stand between digits. Anything else
  raises \<open>ValueError\<close> (\<open>None\<close> here). The whitespace \<open>int\<close> skips is tab, line
  feed, vertical tab, form feed, carriage return and space, and above ASCII the
  Unicode spaces, of which U+0085 and U+00A0 lie below 256.

  The interpreter limits the conversions between \<open>int\<close> and \<open>str\<close>: with the limit
  \<open>sys.get_int_max_str_digits()\<close>, which is 4300 unless the interpreter is started or
  set otherwise (to 0, which stands for no limit, or to 640 or more), \<open>int(s)\<close>
  raises \<open>ValueError\<close> when
  \<open>s\<close> holds more digits than the limit (leading zeros count; sign, underscores and
  whitespace do not), and \<open>str(n)\<close> raises \<open>ValueError\<close> when \<open>n\<close> has more decimal
  digits than the limit. The limit is a parameter of the functions below.
\<close>

definition over_limit :: "nat \<Rightarrow> nat \<Rightarrow> bool" where
  "over_limit max_str_digits digits = (0 < max_str_digits \<and> max_str_digits < digits)"

definition is_digit :: "char \<Rightarrow> bool" where
  "is_digit c = (c \<in> set ''0123456789'')"

definition digit_value :: "char \<Rightarrow> nat" where
  "digit_value c = of_char c - 48"

definition is_int_space :: "char \<Rightarrow> bool" where
  "is_int_space c =
     (c \<in> set [CHR 0x09, CHR 0x0A, CHR 0x0B, CHR 0x0C, CHR 0x0D, CHR 0x20, CHR 0x85, CHR 0xA0])"

definition strip_int_space :: "string \<Rightarrow> string" where
  "strip_int_space s = rev (dropWhile is_int_space (rev (dropWhile is_int_space s)))"

text \<open>
  The digits of a literal, left to right. \<open>after_digit\<close> says that the previous
  character was a digit: only then may an underscore follow or the literal end.
\<close>

fun parse_digits :: "nat \<Rightarrow> bool \<Rightarrow> string \<Rightarrow> nat option" where
  "parse_digits acc after_digit [] = (if after_digit then Some acc else None)"
| "parse_digits acc after_digit (c # cs) =
     (if is_digit c then parse_digits (10 * acc + digit_value c) True cs
      else if c = CHR ''_'' \<and> after_digit then parse_digits acc False cs
      else None)"

text \<open>The number a string denotes, were there no limit.\<close>

definition int_literal :: "string \<Rightarrow> int option" where
  "int_literal s =
     (case strip_int_space s of
        [] \<Rightarrow> None
      | c # cs \<Rightarrow>
          if c = CHR ''-'' then map_option (\<lambda>n. - int n) (parse_digits 0 False cs)
          else if c = CHR ''+'' then map_option int (parse_digits 0 False cs)
          else map_option int (parse_digits 0 False (c # cs)))"

definition py_int :: "nat \<Rightarrow> string \<Rightarrow> int option" where
  "py_int max_str_digits s =
     (if over_limit max_str_digits (length (filter is_digit s)) then None else int_literal s)"

text \<open>
  The decimal text of an integer, and \<open>str(n)\<close>, which is also what an f-string writes
  for an integer: the decimal text, unless it has more digits than the limit.
\<close>

definition digit_char :: "nat \<Rightarrow> char" where
  "digit_char d = ''0123456789'' ! d"

function str_nat :: "nat \<Rightarrow> string" where
  "str_nat n = (if n < 10 then [digit_char n] else str_nat (n div 10) @ [digit_char (n mod 10)])"
  by pat_completeness auto
termination
  by (relation "measure (\<lambda>n. n)") auto

declare str_nat.simps [simp del]

definition decimal_text :: "int \<Rightarrow> string" where
  "decimal_text i = (if i < 0 then CHR ''-'' # str_nat (nat (- i)) else str_nat (nat i))"

definition decimal_digits :: "int \<Rightarrow> nat" where
  "decimal_digits i = length (str_nat (nat \<bar>i\<bar>))"

definition py_str :: "nat \<Rightarrow> int \<Rightarrow> string option" where
  "py_str max_str_digits i =
     (if over_limit max_str_digits (decimal_digits i) then None else Some (decimal_text i))"

section \<open>\<open>build_and_publish.py\<close>: \<open>increment_version\<close>\<close>

text \<open>
  \<^verbatim>\<open>
  def increment_version(version_str):
      parts = version_str.split('.')
      if len(parts) == 3:
          major, minor, patch = int(parts[0]), int(parts[1]), int(parts[2])
          return f"{major}.{minor}.{patch + 1}"
      return version_str
  \<close>
  A part that \<open>int\<close> rejects raises \<open>ValueError\<close>, and so does a number that the
  f-string cannot write within the interpreter's limit \<open>max_str_digits\<close>.
\<close>

definition increment_version :: "nat \<Rightarrow> string \<Rightarrow> py_error + string" where
  "increment_version max_str_digits version_str =
     (let parts = split_on CHR ''.'' version_str in
      if length parts = 3 then
        (case py_int max_str_digits (parts ! 0) of
           None \<Rightarrow> Inl ValueError
         | Some major \<Rightarrow>
             (case py_int max_str_digits (parts ! 1) of
                None \<Rightarrow> Inl ValueError
              | Some minor \<Rightarrow>
                  (case py_int max_str_digits (parts ! 2) of
                     None \<Rightarrow> Inl ValueError
                   | Some patch \<Rightarrow>
                       (case py_str max_str_digits major of
                          None \<Rightarrow> Inl ValueError
                        | Some major_text \<Rightarrow>
                            (case py_str max_str_digits minor of
                               None \<Rightarrow> Inl ValueError
                             | Some minor_text \<Rightarrow>
                                 (case py_str max_str_digits (patch + 1) of
                                    None \<Rightarrow> Inl ValueError
                                  | Some patch_text \<Rightarrow>
                                      Inr (major_text @ ''.'' @ minor_text @ ''.''
                                             @ patch_text)))))))
      else Inr version_str)"

section \<open>\<open>build_and_publish.py\<close>: \<open>update_version_in_files\<close>\<close>

subsection \<open>Files opened in text mode\<close>

text \<open>
  The file system maps a path to the characters stored in the file. The script opens its
  files with \<open>open(path, "r")\<close> and \<open>open(path, "w")\<close>, that is in text mode with the
  default \<open>newline=None\<close>: reading translates every \<open>\r\n\<close> and every remaining
  \<open>\r\<close> to \<open>\n\<close>, and writing translates every \<open>\n\<close> to the platform's line
  separator \<open>os.linesep\<close>, a parameter here. Decoding and encoding are one-to-one and
  not modelled: the stored characters are the decoded ones.
\<close>

type_synonym fs = "string \<rightharpoonup> string"

fun universal_newlines :: "string \<Rightarrow> string" where
  "universal_newlines [] = []"
| "universal_newlines [c] = (if c = CR then [LF] else [c])"
| "universal_newlines (c # d # ds) =
     (if c = CR \<and> d = LF then LF # universal_newlines ds
      else if c = CR then LF # universal_newlines (d # ds)
      else c # universal_newlines (d # ds))"

definition write_newlines :: "string \<Rightarrow> string \<Rightarrow> string" where
  "write_newlines linesep s = concat (map (\<lambda>c. if c = LF then linesep else [c]) s)"

definition read_text :: "fs \<Rightarrow> string \<Rightarrow> string option" where
  "read_text files path = map_option universal_newlines (files path)"

definition write_text :: "string \<Rightarrow> fs \<Rightarrow> string \<Rightarrow> string \<Rightarrow> fs" where
  "write_text linesep files path s = files(path \<mapsto> write_newlines linesep s)"

subsection \<open>The function\<close>

text \<open>
  \<^verbatim>\<open>
  lines = content.split('\n')
  for i, line in enumerate(lines):
      if line.startswith("version"):
          lines[i] = f'version = "{new_version}"'
          break
  \<close>
  The loop replaces the first line that starts with the prefix and stops.
\<close>

fun replace_first :: "string \<Rightarrow> string \<Rightarrow> string list \<Rightarrow> string list" where
  "replace_first pre new [] = []"
| "replace_first pre new (l # ls) =
     (if startswith l pre then new # ls else l # replace_first pre new ls)"

definition rewrite_line :: "string \<Rightarrow> string \<Rightarrow> string \<Rightarrow> string" where
  "rewrite_line pre new content = join [LF] (replace_first pre new (split_on LF content))"

definition pyproject_path :: string where
  "pyproject_path = ''pyproject.toml''"

definition init_path :: string where
  "init_path = ''inter_service_sdk/__init__.py''"

definition version_line :: "string \<Rightarrow> string" where
  "version_line new_version = ''version = '' @ [DQ] @ new_version @ [DQ]"

definition init_version_line :: "string \<Rightarrow> string" where
  "init_version_line new_version = ''__version__ = '' @ [DQ] @ new_version @ [DQ]"

text \<open>
  \<open>update_version_in_files(new_version)\<close>: \<open>pyproject.toml\<close> is read, rewritten and
  written back; opening it raises \<open>FileNotFoundError\<close> when it does not exist, before
  anything is written. \<open>inter_service_sdk/__init__.py\<close> is treated the same way, but
  only if it exists. The message printed at the end is not modelled.
\<close>

definition update_version_in_files :: "string \<Rightarrow> string \<Rightarrow> fs \<Rightarrow> py_error + fs" where
  "update_version_in_files linesep new_version files =
     (case read_text files pyproject_path of
        None \<Rightarrow> Inl FileNotFoundError
      | Some content \<Rightarrow>
          (let files1 = write_text linesep files pyproject_path
                          (rewrite_line ''version'' (version_line new_version) content)
           in case read_text files1 init_path of
                None \<Rightarrow> Inr files1
              | Some init_content \<Rightarrow>
                  Inr (write_text linesep files1 init_path
                         (rewrite_line ''__version__'' (init_version_line new_version)
                            init_content))))"

section \<open>\<open>build_and_publish.py\<close>: the substitution of \<open>update_dependent_projects\<close>\<close>

text \<open>
  \<^verbatim>\<open>
  updated_content = re.sub(
      r'inter-service-sdk==[\d\.]+',
      f'inter-service-sdk=={new_version}',
      content
  )
  \<close>
  The pattern is the literal \<open>inter-service-sdk==\<close> followed by one or more characters
  that are a decimal digit or a dot, as many as there are (the quantifier is greedy and
  nothing follows it). \<open>re.sub\<close> scans the text from the left: where the pattern matches
  it writes the replacement and goes on after the match, elsewhere it copies one
  character and goes on with the next.
\<close>

definition pin_prefix :: string where
  "pin_prefix = ''inter-service-sdk==''"

definition is_pin_char :: "char \<Rightarrow> bool" where
  "is_pin_char c = (is_digit c \<or> c = CHR ''.'')"

text \<open>A match at the start of \<open>s\<close>: the text that follows the match.\<close>

definition match_pin :: "string \<Rightarrow> string option" where
  "match_pin s =
     (if startswith s pin_prefix then
        (case drop (length pin_prefix) s of
           [] \<Rightarrow> None
         | d # ds \<Rightarrow> if is_pin_char d then Some (dropWhile is_pin_char ds) else None)
      else None)"

function sub_pin :: "string \<Rightarrow> string \<Rightarrow> string" where
  "sub_pin repl [] = []"
| "sub_pin repl (c # cs) =
     (case match_pin (c # cs) of
        Some rest \<Rightarrow> repl @ sub_pin repl rest
      | None \<Rightarrow> c # sub_pin repl cs)"
  by pat_completeness auto
termination
proof (relation "measure (\<lambda>(repl, s). length s)")
  show "wf (measure (\<lambda>(repl, s). length s))"
    by simp
next
  fix repl :: string and c :: char and cs rest :: string
  assume "match_pin (c # cs) = Some rest"
  then obtain d ds where "drop (length pin_prefix) (c # cs) = d # ds"
    and "rest = dropWhile is_pin_char ds"
    by (auto simp: match_pin_def split: if_splits list.splits)
  moreover have "length (drop (length pin_prefix) (c # cs)) \<le> length (c # cs)"
    by simp
  moreover have "length (dropWhile is_pin_char ds) \<le> length ds"
    by (rule length_dropWhile_le)
  ultimately have "length rest < length (c # cs)"
    by simp
  then show "((repl, rest), (repl, c # cs)) \<in> measure (\<lambda>(repl, s). length s)"
    by simp
next
  fix repl :: string and c :: char and cs :: string
  show "((repl, cs), (repl, c # cs)) \<in> measure (\<lambda>(repl, s). length s)"
    by simp
qed

declare sub_pin.simps [simp del]

text \<open>
  \<open>re.sub\<close> reads its replacement as a template, in which a backslash starts an escape
  or a group reference. A replacement without a backslash stands for itself; one with a
  backslash is outside this model (\<open>None\<close>).
\<close>

definition re_sub_pin :: "string \<Rightarrow> string \<Rightarrow> string option" where
  "re_sub_pin new_version content =
     (let repl = pin_prefix @ new_version
      in if CHR 0x5C \<in> set repl then None else Some (sub_pin repl content))"

section \<open>The URL builder of the client\<close>

text \<open>
  Modelled from the spec: the client's URL builder (spec section 4.3). Its code,
  \<open>inter_service_sdk/client.py\<close>, is not among the sources; what follows is written
  from the spec's words, and the examples under \<open>examples/\<close> only call it.
\<close>

text \<open>
  Modelled from the spec: the failure kinds of the error taxonomy (spec section 7).
  A \<open>URLBuildError\<close> names the parameter it is about; a \<open>RequestError\<close> carries the
  last status code, if there was one.
\<close>

datatype url_problem = MissingParameter string | DuplicateParameter string

datatype sdk_error =
    URLBuildError url_problem
  | EncryptionError
  | AuthenticationError nat
  | RequestError "nat option"

text \<open>
  Modelled from the spec: a path or query parameter value, an integer or a string, and
  its string form.
\<close>

datatype param_value = IntValue int | StrValue string

fun value_str :: "param_value \<Rightarrow> string" where
  "value_str (IntValue i) = decimal_text i"
| "value_str (StrValue s) = s"

text \<open>
  Modelled from the spec: percent-encoding. The spec names no character set; the
  unreserved characters of RFC 3986 are kept and every other character is written as
  \<open>%\<close> and two hexadecimal digits.
\<close>

definition unreserved :: "char \<Rightarrow> bool" where
  "unreserved c =
     (c \<in> set ''ABCDEFGHIJKLMNOPQRSTUVWXYZabcdefghijklmnopqrstuvwxyz0123456789-._~'')"

definition hex_digit :: "nat \<Rightarrow> char" where
  "hex_digit d = ''0123456789ABCDEF'' ! d"

definition percent_encode :: "string \<Rightarrow> string" where
  "percent_encode s =
     concat (map (\<lambda>c. if unreserved c then [c]
                        else [CHR ''%'', hex_digit (of_char c div 16), hex_digit (of_char c mod 16)]) s)"

text \<open>
  Modelled from the spec: an endpoint template, read from the left as text and
  placeholders \<open>{name}\<close>. The spec does not say what a brace without its closing brace
  is; it is kept as text here.
\<close>

datatype template_item = Text char | Placeholder string

function parse_template :: "string \<Rightarrow> template_item list" where
  "parse_template [] = []"
| "parse_template (c # cs) =
     (if c = CHR ''{'' \<and> CHR ''}'' \<in> set cs
      then Placeholder (takeWhile (\<lambda>x. x \<noteq> CHR ''}'') cs)
             # parse_template (tl (dropWhile (\<lambda>x. x \<noteq> CHR ''}'') cs))
      else Text c # parse_template cs)"
  by pat_completeness auto
termination
proof (relation "measure length")
  show "wf (measure length)"
    by simp
next
  fix c :: char and cs :: string
  have "length (tl (dropWhile (\<lambda>x. x \<noteq> CHR ''}'') cs)) \<le> length cs"
    using length_dropWhile_le [of "\<lambda>x. x \<noteq> CHR ''}''" cs] by simp
  then show "(tl (dropWhile (\<lambda>x. x \<noteq> CHR ''}'') cs), c # cs) \<in> measure length"
    by simp
next
  fix c :: char and cs :: string
  show "(cs, c # cs) \<in> measure length"
    by simp
qed

declare parse_template.simps [simp del]

fun placeholders :: "template_item list \<Rightarrow> string list" where
  "placeholders [] = []"
| "placeholders (Text c # items) = placeholders items"
| "placeholders (Placeholder name # items) = name # placeholders items"

text \<open>
  Modelled from the spec: substitution. Every placeholder must have an entry in the
  path parameters, or the build fails naming the missing parameter; a value is put in
  in its string form, percent-encoded.
\<close>

fun expand :: "template_item list \<Rightarrow> (string \<rightharpoonup> param_value) \<Rightarrow> url_problem + string" where
  "expand [] path_params = Inr []"
| "expand (Text c # items) path_params =
     (case expand items path_params of
        Inl problem \<Rightarrow> Inl problem
      | Inr rest \<Rightarrow> Inr (c # rest))"
| "expand (Placeholder name # items) path_params =
     (case path_params name of
        None \<Rightarrow> Inl (MissingParameter name)
      | Some v \<Rightarrow>
          (case expand items path_params of
             Inl problem \<Rightarrow> Inl problem
           | Inr rest \<Rightarrow> Inr (percent_encode (value_str v) @ rest)))"

text \<open>
  Modelled from the spec: exactly one slash separates base URL, prefix and endpoint,
  whatever slashes the caller put at their ends; an empty prefix or endpoint adds no
  segment.
\<close>

definition strip_leading_slashes :: "string \<Rightarrow> string" where
  "strip_leading_slashes s = dropWhile (\<lambda>c. c = CHR ''/'') s"

definition strip_trailing_slashes :: "string \<Rightarrow> string" where
  "strip_trailing_slashes s = rev (dropWhile (\<lambda>c. c = CHR ''/'') (rev s))"

definition join_url :: "string \<Rightarrow> string \<Rightarrow> string \<Rightarrow> string" where
  "join_url base_url prefix endpoint =
     join ''/'' (strip_trailing_slashes base_url
                 # filter (\<lambda>segment. segment \<noteq> [])
                     [strip_leading_slashes (strip_trailing_slashes prefix),
                      strip_leading_slashes endpoint])"

text \<open>
  Modelled from the spec: the query parameters, appended in the order supplied and
  percent-encoded like the path values; nothing is appended when there are none.
\<close>

definition query_string :: "(string \<times> param_value) list \<Rightarrow> string" where
  "query_string query_params =
     (if query_params = [] then []
      else ''?'' @ join ''&'' (map (\<lambda>(k, v). percent_encode k @ ''='' @ percent_encode (value_str v))
                                   query_params))"

text \<open>
  Modelled from the spec: the prefix of a call is the per-call override, else the
  client's default, else the empty string.
\<close>

definition resolve_prefix :: "string option \<Rightarrow> string option \<Rightarrow> string" where
  "resolve_prefix override default_prefix =
     (case override of
        Some p \<Rightarrow> p
      | None \<Rightarrow> (case default_prefix of Some d \<Rightarrow> d | None \<Rightarrow> []))"

text \<open>
  Modelled from the spec: \<open>build(baseUrl, prefix, endpointTemplate, pathParams,
  queryParams)\<close>. A placeholder without an entry fails the build first, naming the
  parameter; then a name that stands twice in the template fails it; otherwise the URL
  is the joined path and the query.
\<close>

definition build ::
  "string \<Rightarrow> string \<Rightarrow> string \<Rightarrow> (string \<rightharpoonup> param_value) \<Rightarrow> (string \<times> param_value) list
     \<Rightarrow> sdk_error + string" where
  "build base_url prefix endpoint_template path_params query_params =
     (let items = parse_template endpoint_template; names = placeholders items
      in case expand items path_params of
           Inl problem \<Rightarrow> Inl (URLBuildError problem)
         | Inr endpoint \<Rightarrow>
             (case List.find (\<lambda>name. 1 < count_list names name) names of
                Some name \<Rightarrow> Inl (URLBuildError (DuplicateParameter name))
              | None \<Rightarrow> Inr (join_url base_url prefix endpoint @ query_string query_params)))"

section \<open>Sending with retries\<close>

text \<open>
  Modelled from the spec: the states SENDING, RETRYING and DONE of the request
  dispatcher (spec section 4.4) and the transport it calls (spec section 6). The
  dispatcher's code, \<open>inter_service_sdk/client.py\<close>, is not among the sources.
\<close>

text \<open>
  Modelled from the spec: the transport collaborator. It consumes method, URL, headers,
  body and timeout and produces a status code and a body, or a transport-level error.
  It has a state of its own, so that it can answer one attempt differently from the
  next.
\<close>

datatype transport_error = Timeout | ConnectionReset

record http_request =
  req_method :: string
  req_url :: string
  req_headers :: "(string \<times> string) list"
  req_body :: "string option"
  req_timeout :: nat

record http_response =
  status_code :: nat
  response_body :: string

type_synonym 's transport = "'s \<Rightarrow> http_request \<Rightarrow> (transport_error + http_response) \<times> 's"

text \<open>
  Modelled from the spec: the result of a call, a success with status code and body or
  a failure of one of the kinds above. Decoding the body of a success (and decrypting
  it first, when the call asks for that) comes after what is modelled here.
\<close>

datatype call_result = Success nat string | Failure sdk_error

definition is_2xx :: "nat \<Rightarrow> bool" where
  "is_2xx status = (200 \<le> status \<and> status < 300)"

text \<open>
  Modelled from the spec: the attempts. \<open>attempts_left\<close> counts down from
  \<open>retry_attempts\<close>; \<open>last_status\<close> is the status of the last failed attempt, if it
  had one; \<open>sent\<close> lists the requests handed to the transport so far, the same request
  each time. A transport-level error is retried, and so is a status of the retryable
  set, which the spec calls configured and does not list (a parameter here). A 2xx
  status ends the call with a success, 401 and 403 end it with an
  \<open>AuthenticationError\<close> and are not retried, any other status ends it with a
  \<open>RequestError\<close> carrying the status. When no attempt is left the call fails with a
  \<open>RequestError\<close> for the last failure.
\<close>

fun send_attempts ::
  "nat set \<Rightarrow> 's transport \<Rightarrow> http_request \<Rightarrow> nat \<Rightarrow> nat option \<Rightarrow> http_request list \<Rightarrow> 's
     \<Rightarrow> call_result \<times> http_request list \<times> 's" where
  "send_attempts retryable tr req 0 last_status sent s =
     (Failure (RequestError last_status), sent, s)"
| "send_attempts retryable tr req (Suc attempts_left) last_status sent s =
     (case tr s req of
        (Inl transport_failure, s') \<Rightarrow>
          send_attempts retryable tr req attempts_left None (sent @ [req]) s'
      | (Inr response, s') \<Rightarrow>
          if is_2xx (status_code response)
            then (Success (status_code response) (response_body response), sent @ [req], s')
          else if status_code response = 401 \<or> status_code response = 403
            then (Failure (AuthenticationError (status_code response)), sent @ [req], s')
          else if status_code response \<in> retryable
            then send_attempts retryable tr req attempts_left (Some (status_code response))
                   (sent @ [req]) s'
          else (Failure (RequestError (Some (status_code response))), sent @ [req], s'))"

text \<open>
  Modelled from the spec: sending a request that has been built (and encrypted, when
  the call asks for that) with the client's \<open>retry_attempts\<close>.
\<close>

definition send_request ::
  "nat set \<Rightarrow> 's transport \<Rightarrow> nat \<Rightarrow> http_request \<Rightarrow> 's
     \<Rightarrow> call_result \<times> http_request list \<times> 's" where
  "send_request retryable tr retry_attempts req s =
     send_attempts retryable tr req retry_attempts None [] s"

section \<open>Properties of \<open>increment_version\<close>\<close>

lemma split_on_not_Nil: "split_on sep s \<noteq> []"
  by (induction s) (auto split: list.splits)

lemma split_on_no_sep: "sep \<notin> set s \<Longrightarrow> split_on sep s = [s]"
  by (induction s) auto

lemma split_on_append_sep:
  "sep \<notin> set p \<Longrightarrow> split_on sep (p @ sep # rest) = p # split_on sep rest"
  by (induction p) auto

text \<open>Joining the pieces with the separator gives the text back.\<close>

lemma join_split_on: "join [sep] (split_on sep s) = s"
proof (induction s)
  case Nil
  then show ?case by simp
next
  case (Cons c cs)
  obtain p ps where ps: "split_on sep cs = p # ps"
    using split_on_not_Nil by (cases "split_on sep cs") auto
  show ?case
  proof (cases "c = sep")
    case True
    with Cons ps show ?thesis by simp
  next
    case False
    with Cons ps show ?thesis by (cases ps) auto
  qed
qed

text \<open>A string that \<open>int\<close> accepts holds whitespace, digits, underscores and signs only.\<close>

lemma parse_digits_chars:
  "parse_digits acc b cs = Some n \<Longrightarrow> c \<in> set cs \<Longrightarrow> is_digit c \<or> c = CHR ''_''"
  by (induction acc b cs rule: parse_digits.induct) (auto split: if_splits)

lemma set_dropWhile_cases: "x \<in> set xs \<Longrightarrow> P x \<or> x \<in> set (dropWhile P xs)"
  by (induction xs) auto

lemma strip_int_space_cases:
  assumes "x \<in> set s"
  shows "is_int_space x \<or> x \<in> set (strip_int_space s)"
proof -
  from assms have "is_int_space x \<or> x \<in> set (dropWhile is_int_space s)"
    by (rule set_dropWhile_cases)
  moreover have "is_int_space x \<or> x \<in> set (strip_int_space s)"
    if "x \<in> set (dropWhile is_int_space s)"
  proof -
    from that have "x \<in> set (rev (dropWhile is_int_space s))" by simp
    then have "is_int_space x \<or> x \<in> set (dropWhile is_int_space (rev (dropWhile is_int_space s)))"
      by (rule set_dropWhile_cases)
    then show ?thesis by (simp add: strip_int_space_def)
  qed
  ultimately show ?thesis by blast
qed

lemma int_literal_chars:
  assumes "int_literal s = Some n" and "x \<in> set s"
  shows "is_int_space x \<or> is_digit x \<or> x \<in> set ''_+-''"
proof -
  from assms(2) consider "is_int_space x" | "x \<in> set (strip_int_space s)"
    using strip_int_space_cases by blast
  then show ?thesis
  proof cases
    case 1
    then show ?thesis by simp
  next
    case 2
    with assms(1) show ?thesis
      by (auto simp: int_literal_def split: list.splits if_splits dest: parse_digits_chars)
  qed
qed

lemma int_literal_no_dot: "int_literal s = Some n \<Longrightarrow> CHR ''.'' \<notin> set s"
  by (auto dest!: int_literal_chars simp: is_int_space_def is_digit_def)

lemma split_on_three:
  assumes "CHR ''.'' \<notin> set pa" "CHR ''.'' \<notin> set pb" "CHR ''.'' \<notin> set pc"
  shows "split_on CHR ''.'' (pa @ ''.'' @ pb @ ''.'' @ pc) = [pa, pb, pc]"
  using assms by (simp add: split_on_append_sep split_on_no_sep)

text \<open>
  \<open>int\<close> reads back what \<open>str\<close> writes: the decimal digits of a number parse to the
  number.
\<close>

lemma digit_char_digit:
  assumes "d < 10"
  shows "is_digit (digit_char d)" and "digit_value (digit_char d) = d"
proof -
  from assms have "d \<in> {0, 1, 2, 3, 4, 5, 6, 7, 8, 9}" by auto
  then show "is_digit (digit_char d)" and "digit_value (digit_char d) = d"
    by (auto simp: digit_char_def is_digit_def digit_value_def)
qed

lemma parse_digits_snoc:
  "parse_digits acc b xs = Some m \<Longrightarrow> is_digit d \<Longrightarrow>
     parse_digits acc b (xs @ [d]) = Some (10 * m + digit_value d)"
  by (induction acc b xs rule: parse_digits.induct) (auto split: if_splits)

lemma parse_digits_str_nat: "parse_digits 0 b (str_nat n) = Some n"
proof (induction n rule: str_nat.induct)
  case (1 n)
  show ?case
  proof (cases "n < 10")
    case True
    then show ?thesis
      by (subst str_nat.simps) (simp add: digit_char_digit)
  next
    case False
    with 1 have "parse_digits 0 b (str_nat (n div 10)) = Some (n div 10)" by simp
    then have "parse_digits 0 b (str_nat (n div 10) @ [digit_char (n mod 10)])
        = Some (10 * (n div 10) + digit_value (digit_char (n mod 10)))"
      by (rule parse_digits_snoc) (simp add: digit_char_digit)
    with False show ?thesis
      by (subst str_nat.simps) (simp add: digit_char_digit)
  qed
qed

lemma str_nat_digits: "c \<in> set (str_nat n) \<Longrightarrow> is_digit c"
proof (induction n rule: str_nat.induct)
  case (1 n)
  then show ?case
    by (subst (asm) (2) str_nat.simps) (auto simp: digit_char_digit split: if_splits)
qed

lemma str_nat_not_Nil: "str_nat n \<noteq> []"
  by (subst str_nat.simps) simp

lemma digit_not_space: "is_digit c \<Longrightarrow> \<not> is_int_space c"
  by (auto simp: is_digit_def is_int_space_def)

lemma strip_int_space_id:
  assumes "s \<noteq> []" and "\<not> is_int_space (hd s)" and "\<not> is_int_space (last s)"
  shows "strip_int_space s = s"
proof -
  from assms have "dropWhile is_int_space s = s"
    by (simp add: dropWhile_eq_self_iff)
  moreover from assms have "dropWhile is_int_space (rev s) = rev s"
    by (simp add: dropWhile_eq_self_iff hd_rev)
  ultimately show ?thesis by (simp add: strip_int_space_def)
qed

lemma int_literal_decimal_text: "int_literal (decimal_text i) = Some i"
proof -
  let ?n = "nat \<bar>i\<bar>"
  obtain c cs where cs: "str_nat ?n = c # cs"
    using str_nat_not_Nil by (cases "str_nat ?n") auto
  have c: "is_digit c"
    using str_nat_digits [of c ?n] cs by simp
  have "last (c # cs) \<in> set (str_nat ?n)"
    using cs last_in_set [of "c # cs"] by simp
  then have l: "is_digit (last (c # cs))"
    by (rule str_nat_digits)
  from l have nl: "\<not> is_int_space (last (c # cs))"
    by (rule digit_not_space)
  have minus: "\<not> is_int_space CHR ''-''"
    by (simp add: is_int_space_def)
  have p: "parse_digits 0 False (c # cs) = Some ?n"
    using parse_digits_str_nat [of False ?n] cs by simp
  show ?thesis
  proof (cases "i < 0")
    case True
    have "strip_int_space (CHR ''-'' # c # cs) = CHR ''-'' # c # cs"
    proof (rule strip_int_space_id)
      show "CHR ''-'' # c # cs \<noteq> []" by simp
      show "\<not> is_int_space (hd (CHR ''-'' # c # cs))" using minus by simp
      show "\<not> is_int_space (last (CHR ''-'' # c # cs))" using nl by simp
    qed
    with True cs p show ?thesis
      by (simp add: int_literal_def decimal_text_def abs_if)
  next
    case False
    from c have nc: "c \<noteq> CHR ''-''" "c \<noteq> CHR ''+''"
      by (auto simp: is_digit_def)
    have "strip_int_space (c # cs) = c # cs"
    proof (rule strip_int_space_id)
      show "c # cs \<noteq> []" by simp
      show "\<not> is_int_space (hd (c # cs))" using c by (simp add: digit_not_space)
      show "\<not> is_int_space (last (c # cs))" by (rule nl)
    qed
    with False cs p nc show ?thesis
      by (simp add: int_literal_def decimal_text_def abs_if)
  qed
qed

text \<open>
  The limit. A literal denotes a number with no more digits than the literal holds, so
  a number that \<open>int\<close> has read can be written by \<open>str\<close>; and what \<open>str\<close> writes,
  \<open>int\<close> reads back.
\<close>

lemma digit_value_le: "is_digit c \<Longrightarrow> digit_value c \<le> 9"
  by (auto simp: is_digit_def digit_value_def)

lemma parse_digits_bound:
  "parse_digits acc b cs = Some n \<Longrightarrow> n < (acc + 1) * 10 ^ length (filter is_digit cs)"
proof (induction acc b cs rule: parse_digits.induct)
  case (1 acc after_digit)
  then show ?case by (simp split: if_splits)
next
  case (2 acc after_digit c cs)
  show ?case
  proof (cases "is_digit c")
    case True
    with 2 have "n < (10 * acc + digit_value c + 1) * 10 ^ length (filter is_digit cs)"
      by simp
    also have "\<dots> \<le> (10 * (acc + 1)) * 10 ^ length (filter is_digit cs)"
      using digit_value_le [OF True] by (intro mult_right_mono) simp_all
    finally show ?thesis using True by (simp add: algebra_simps)
  next
    case False
    with 2 show ?thesis by (simp split: if_splits)
  qed
qed

lemma parse_digits_has_digit:
  "parse_digits acc b cs = Some n \<Longrightarrow> b \<or> 0 < length (filter is_digit cs)"
  by (induction acc b cs rule: parse_digits.induct) (auto split: if_splits)

lemma str_nat_length_le: "n < 10 ^ k \<Longrightarrow> 0 < k \<Longrightarrow> length (str_nat n) \<le> k"
proof (induction n arbitrary: k rule: str_nat.induct)
  case (1 n)
  show ?case
  proof (cases "n < 10")
    case True
    with 1 show ?thesis by (subst str_nat.simps) simp
  next
    case False
    obtain j where k: "k = Suc j" using 1(3) by (cases k) auto
    with 1(2) False have j: "0 < j" by (cases j) auto
    from 1(2) k have "n div 10 < 10 ^ j" by (simp add: less_mult_imp_div_less mult.commute)
    with 1(1) False j have "length (str_nat (n div 10)) \<le> j" by simp
    with False k show ?thesis by (subst str_nat.simps) simp
  qed
qed

lemma parse_digits_length:
  assumes "parse_digits 0 False cs = Some n"
  shows "length (str_nat n) \<le> length (filter is_digit cs)"
proof -
  from assms have "n < 10 ^ length (filter is_digit cs)"
    using parse_digits_bound [of 0 False cs n] by simp
  moreover from assms have "0 < length (filter is_digit cs)"
    using parse_digits_has_digit [of 0 False cs n] by simp
  ultimately show ?thesis by (rule str_nat_length_le)
qed

lemma filter_dropWhile_le: "length (filter P (dropWhile Q xs)) \<le> length (filter P xs)"
  by (induction xs) auto

lemma strip_int_space_digits:
  "length (filter is_digit (strip_int_space s)) \<le> length (filter is_digit s)"
proof -
  have "length (filter is_digit (strip_int_space s))
      = length (filter is_digit (dropWhile is_int_space (rev (dropWhile is_int_space s))))"
    by (simp add: strip_int_space_def rev_filter [symmetric])
  also have "\<dots> \<le> length (filter is_digit (rev (dropWhile is_int_space s)))"
    by (rule filter_dropWhile_le)
  also have "\<dots> = length (filter is_digit (dropWhile is_int_space s))"
    by (simp add: rev_filter [symmetric])
  also have "\<dots> \<le> length (filter is_digit s)"
    by (rule filter_dropWhile_le)
  finally show ?thesis .
qed

lemma int_literal_digits:
  assumes "int_literal s = Some i"
  shows "decimal_digits i \<le> length (filter is_digit s)"
proof -
  from assms obtain c cs where s: "strip_int_space s = c # cs"
    by (auto simp: int_literal_def split: list.splits)
  have "decimal_digits i \<le> length (filter is_digit (c # cs))"
  proof (cases "c = CHR ''-'' \<or> c = CHR ''+''")
    case True
    with assms s obtain n where n: "parse_digits 0 False cs = Some n" and i: "\<bar>i\<bar> = int n"
      by (auto simp: int_literal_def split: if_splits)
    from parse_digits_length [OF n] i show ?thesis
      by (simp add: decimal_digits_def)
  next
    case False
    with assms s obtain n where n: "parse_digits 0 False (c # cs) = Some n" and i: "\<bar>i\<bar> = int n"
      by (auto simp: int_literal_def split: if_splits)
    from parse_digits_length [OF n] i show ?thesis
      by (simp add: decimal_digits_def)
  qed
  with s strip_int_space_digits [of s] show ?thesis by simp
qed

lemma py_int_Some:
  "py_int m s = Some i \<longleftrightarrow> \<not> over_limit m (length (filter is_digit s)) \<and> int_literal s = Some i"
  by (simp add: py_int_def)

lemma py_int_no_dot: "py_int m s = Some i \<Longrightarrow> CHR ''.'' \<notin> set s"
  by (simp add: py_int_Some int_literal_no_dot)

lemma py_int_within_limit:
  assumes "py_int m s = Some i"
  shows "\<not> over_limit m (decimal_digits i)"
proof -
  from assms have "decimal_digits i \<le> length (filter is_digit s)"
    and "\<not> over_limit m (length (filter is_digit s))"
    by (simp_all add: py_int_Some int_literal_digits)
  then show ?thesis
    by (auto simp: over_limit_def)
qed

lemma py_str_after_py_int: "py_int m s = Some i \<Longrightarrow> py_str m i = Some (decimal_text i)"
  by (simp add: py_str_def py_int_within_limit)

lemma decimal_text_digits: "length (filter is_digit (decimal_text i)) = decimal_digits i"
proof -
  have "filter is_digit (str_nat n) = str_nat n" for n
    by (simp add: filter_id_conv str_nat_digits)
  moreover have "\<not> is_digit CHR ''-''"
    by (simp add: is_digit_def)
  moreover have "i < 0 \<Longrightarrow> nat (- i) = nat \<bar>i\<bar>" and "\<not> i < 0 \<Longrightarrow> nat i = nat \<bar>i\<bar>"
    by simp_all
  ultimately show ?thesis
    by (simp add: decimal_text_def decimal_digits_def)
qed

lemma py_int_decimal_text:
  "\<not> over_limit m (decimal_digits i) \<Longrightarrow> py_int m (decimal_text i) = Some i"
  by (simp add: py_int_Some decimal_text_digits int_literal_decimal_text)

text \<open>
  The largest patch number within a limit of \<open>k\<close> digits is written with \<open>k\<close>
  nines, and its successor has one digit more.
\<close>

lemma parse_digits_nines:
  "parse_digits acc b (replicate (Suc k) CHR ''9'') = Some ((acc + 1) * 10 ^ Suc k - 1)"
proof (induction k arbitrary: acc b)
  case 0
  show ?case by (simp add: is_digit_def digit_value_def)
next
  case (Suc k)
  have "parse_digits acc b (replicate (Suc (Suc k)) CHR ''9'')
      = parse_digits (10 * acc + 9) True (replicate (Suc k) CHR ''9'')"
    by (simp add: is_digit_def digit_value_def)
  also have "\<dots> = Some ((10 * acc + 9 + 1) * 10 ^ Suc k - 1)"
    by (rule Suc.IH)
  finally show ?case by (simp add: algebra_simps)
qed

lemma int_literal_nines: "int_literal (replicate (Suc k) CHR ''9'') = Some (10 ^ Suc k - 1)"
proof -
  have nine: "\<not> is_int_space CHR ''9''"
    by (simp add: is_int_space_def)
  have "strip_int_space (replicate (Suc k) CHR ''9'') = replicate (Suc k) CHR ''9''"
  proof (rule strip_int_space_id)
    show "replicate (Suc k) CHR ''9'' \<noteq> []" by simp
    show "\<not> is_int_space (hd (replicate (Suc k) CHR ''9''))" using nine by simp
    show "\<not> is_int_space (last (replicate (Suc k) CHR ''9''))"
      using nine by (simp only: last_replicate) simp
  qed
  moreover have "parse_digits 0 False (replicate (Suc k) CHR ''9'') = Some (10 ^ Suc k - 1)"
    using parse_digits_nines [of 0 False k] by simp
  moreover have "int ((10::nat) ^ Suc k - 1) = 10 ^ Suc k - 1"
    by (simp add: of_nat_diff)
  ultimately show ?thesis
    by (simp add: int_literal_def del: power_Suc)
qed

lemma py_int_nines:
  "\<not> over_limit m (Suc k) \<Longrightarrow> py_int m (replicate (Suc k) CHR ''9'') = Some (10 ^ Suc k - 1)"
  by (simp add: py_int_Some int_literal_nines is_digit_def del: power_Suc replicate.simps)

lemma decimal_digits_power: "decimal_digits (10 ^ k) = Suc k"
proof -
  have "length (str_nat (10 ^ k)) = Suc k"
  proof (induction k)
    case 0
    show ?case by (subst str_nat.simps) simp
  next
    case (Suc k)
    have "(10::nat) \<le> 10 * 10 ^ k" by simp
    then have "\<not> (10::nat) ^ Suc k < 10" by simp
    with Suc show ?case by (subst str_nat.simps) simp
  qed
  then show ?thesis by (simp add: decimal_digits_def nat_power_eq)
qed

lemma increment_version_nines:
  assumes "0 < m"
  shows "increment_version m (''1.0.'' @ replicate m CHR ''9'') = Inl ValueError"
    and "py_int m ''1'' = Some 1" and "py_int m ''0'' = Some 0"
    and "py_int m (replicate m CHR ''9'') = Some (10 ^ m - 1)"
    and "over_limit m (decimal_digits (10 ^ m - 1 + 1))"
proof -
  from assms obtain k where m: "m = Suc k" by (cases m) auto
  show one: "py_int m ''1'' = Some 1" and zero: "py_int m ''0'' = Some 0"
    using assms
    by (simp_all add: py_int_Some over_limit_def int_literal_def strip_int_space_def
        is_int_space_def is_digit_def digit_value_def)
  show nines: "py_int m (replicate m CHR ''9'') = Some (10 ^ m - 1)"
    unfolding m by (rule py_int_nines) (simp add: over_limit_def)
  show over: "over_limit m (decimal_digits (10 ^ m - 1 + 1))"
    using assms by (simp add: decimal_digits_power over_limit_def)
  have "CHR ''.'' \<notin> set (replicate m CHR ''9'')"
    by simp
  then have "split_on CHR ''.'' (''1'' @ ''.'' @ ''0'' @ ''.'' @ replicate m CHR ''9'')
      = [''1'', ''0'', replicate m CHR ''9'']"
    by (intro split_on_three) simp_all
  moreover have "py_str m 1 = Some (decimal_text 1)" "py_str m 0 = Some (decimal_text 0)"
    using one zero by (simp_all add: py_str_after_py_int)
  moreover from over have "py_str m (10 ^ m - 1 + 1) = None"
    by (simp add: py_str_def)
  ultimately show "increment_version m (''1.0.'' @ replicate m CHR ''9'') = Inl ValueError"
    using one zero nines by (simp add: increment_version_def)
qed

text \<open>
  A number that \<open>int\<close> has read is too long to write after the increment only when
  it is the largest number of as many digits as the limit allows.
\<close>

lemma str_nat_lower: "n < 10 ^ length (str_nat n)"
proof (induction n rule: str_nat.induct)
  case (1 n)
  show ?case
  proof (cases "n < 10")
    case True
    then show ?thesis by (subst str_nat.simps) simp
  next
    case False
    with 1 have "n div 10 < 10 ^ length (str_nat (n div 10))" by simp
    then have "n < 10 * 10 ^ length (str_nat (n div 10))" by (simp add: div_less_iff_less_mult mult.commute)
    with False show ?thesis by (subst str_nat.simps) simp
  qed
qed

lemma decimal_digits_le_iff:
  assumes "0 < k"
  shows "decimal_digits i \<le> k \<longleftrightarrow> \<bar>i\<bar> < 10 ^ k"
proof
  assume "decimal_digits i \<le> k"
  then have le: "length (str_nat (nat \<bar>i\<bar>)) \<le> k"
    by (simp add: decimal_digits_def)
  have "nat \<bar>i\<bar> < 10 ^ length (str_nat (nat \<bar>i\<bar>))"
    by (rule str_nat_lower)
  also from le have "\<dots> \<le> 10 ^ k"
    by (intro power_increasing) simp_all
  finally have "nat \<bar>i\<bar> < 10 ^ k" .
  then have "int (nat \<bar>i\<bar>) < int (10 ^ k)" by (simp only: of_nat_less_iff)
  then show "\<bar>i\<bar> < 10 ^ k" by simp
next
  assume "\<bar>i\<bar> < 10 ^ k"
  then have "int (nat \<bar>i\<bar>) < int (10 ^ k)" by simp
  then have "nat \<bar>i\<bar> < 10 ^ k" by (simp only: of_nat_less_iff)
  with assms show "decimal_digits i \<le> k"
    by (simp add: decimal_digits_def str_nat_length_le)
qed

lemma over_limit_successor:
  assumes "py_int m pc = Some c"
  shows "over_limit m (decimal_digits (c + 1)) \<longleftrightarrow> 0 < m \<and> c = 10 ^ m - 1"
proof
  assume o: "over_limit m (decimal_digits (c + 1))"
  then have m: "0 < m" and "\<not> decimal_digits (c + 1) \<le> m"
    by (simp_all add: over_limit_def)
  then have big: "10 ^ m \<le> \<bar>c + 1\<bar>"
    by (simp add: decimal_digits_le_iff)
  from assms have "decimal_digits c \<le> length (filter is_digit pc)"
    and "\<not> over_limit m (length (filter is_digit pc))"
    by (simp_all add: py_int_Some int_literal_digits)
  with m have "decimal_digits c \<le> m"
    by (simp add: over_limit_def)
  with m have "\<bar>c\<bar> < 10 ^ m"
    by (simp add: decimal_digits_le_iff)
  with big m show "0 < m \<and> c = 10 ^ m - 1"
    by linarith
next
  assume "0 < m \<and> c = 10 ^ m - 1"
  then show "over_limit m (decimal_digits (c + 1))"
    by (simp add: decimal_digits_power over_limit_def)
qed

text \<open>
  Claim C8, amended. Let \<open>m\<close> be the interpreter's limit on conversions between
  integers and strings. For every string \<open>pa.pb.pc\<close> whose three parts \<open>int\<close> parses,
  to the integers \<open>a\<close>, \<open>b\<close> and \<open>c\<close>: if \<open>c + 1\<close> has no more decimal digits
  than the limit allows, \<open>increment_version\<close> returns the string \<open>a.b.(c+1)\<close>, each
  number written in decimal, and read again its three parts are the numbers \<open>a\<close>,
  \<open>b\<close> and \<open>c + 1\<close>: major and minor are unchanged and the patch number is one
  more; if \<open>c + 1\<close> has more digits than the limit allows, which by
  \<open>over_limit_successor\<close> is the case only for \<open>c = 10 ^ m - 1\<close>, it raises
  \<open>ValueError\<close>. For every string whose split at the dots does not have exactly
  three parts, it returns the string as it is.
\<close>

theorem increment_version_patch:
  "(py_int m pa = Some a \<and> py_int m pb = Some b \<and> py_int m pc = Some c
      \<and> \<not> over_limit m (decimal_digits (c + 1)) \<longrightarrow>
      increment_version m (pa @ ''.'' @ pb @ ''.'' @ pc) =
        Inr (decimal_text a @ ''.'' @ decimal_text b @ ''.'' @ decimal_text (c + 1))
      \<and> map (py_int m)
            (split_on CHR ''.'' (decimal_text a @ ''.'' @ decimal_text b @ ''.'' @ decimal_text (c + 1)))
          = [Some a, Some b, Some (c + 1)])
   \<and> (py_int m pa = Some a \<and> py_int m pb = Some b \<and> py_int m pc = Some c
      \<and> over_limit m (decimal_digits (c + 1)) \<longrightarrow>
      increment_version m (pa @ ''.'' @ pb @ ''.'' @ pc) = Inl ValueError)
   \<and> (length (split_on CHR ''.'' s) \<noteq> 3 \<longrightarrow> increment_version m s = Inr s)"
proof (intro conjI impI)
  assume h: "py_int m pa = Some a \<and> py_int m pb = Some b \<and> py_int m pc = Some c
      \<and> \<not> over_limit m (decimal_digits (c + 1))"
  then have parts: "split_on CHR ''.'' (pa @ ''.'' @ pb @ ''.'' @ pc) = [pa, pb, pc]"
    by (intro split_on_three py_int_no_dot) auto
  from h have "py_str m a = Some (decimal_text a)" "py_str m b = Some (decimal_text b)"
    by (auto intro: py_str_after_py_int)
  moreover from h have "py_str m (c + 1) = Some (decimal_text (c + 1))"
    by (simp add: py_str_def)
  ultimately have "py_str m a = Some (decimal_text a)" "py_str m b = Some (decimal_text b)"
    "py_str m (c + 1) = Some (decimal_text (c + 1))"
    by simp_all
  with h parts show "increment_version m (pa @ ''.'' @ pb @ ''.'' @ pc) =
      Inr (decimal_text a @ ''.'' @ decimal_text b @ ''.'' @ decimal_text (c + 1))"
    by (simp add: increment_version_def)
  from h have "\<not> over_limit m (decimal_digits a)" "\<not> over_limit m (decimal_digits b)"
    by (auto dest: py_int_within_limit)
  with h have reread: "py_int m (decimal_text a) = Some a" "py_int m (decimal_text b) = Some b"
    "py_int m (decimal_text (c + 1)) = Some (c + 1)"
    by (simp_all add: py_int_decimal_text)
  then have "split_on CHR ''.'' (decimal_text a @ ''.'' @ decimal_text b @ ''.'' @ decimal_text (c + 1))
      = [decimal_text a, decimal_text b, decimal_text (c + 1)]"
    by (intro split_on_three py_int_no_dot)
  with reread show "map (py_int m)
        (split_on CHR ''.'' (decimal_text a @ ''.'' @ decimal_text b @ ''.'' @ decimal_text (c + 1)))
      = [Some a, Some b, Some (c + 1)]"
    by simp
next
  assume h: "py_int m pa = Some a \<and> py_int m pb = Some b \<and> py_int m pc = Some c
      \<and> over_limit m (decimal_digits (c + 1))"
  then have parts: "split_on CHR ''.'' (pa @ ''.'' @ pb @ ''.'' @ pc) = [pa, pb, pc]"
    by (intro split_on_three py_int_no_dot) auto
  from h have "py_str m a = Some (decimal_text a)" "py_str m b = Some (decimal_text b)"
    by (auto intro: py_str_after_py_int)
  moreover from h have "py_str m (c + 1) = None"
    by (simp add: py_str_def)
  ultimately have "py_str m a = Some (decimal_text a)" "py_str m b = Some (decimal_text b)"
    "py_str m (c + 1) = None"
    by simp_all
  with h parts show "increment_version m (pa @ ''.'' @ pb @ ''.'' @ pc) = Inl ValueError"
    by (simp add: increment_version_def)
next
  assume "length (split_on CHR ''.'' s) \<noteq> 3"
  then show "increment_version m s = Inr s"
    by (simp add: increment_version_def)
qed

text \<open>
  The claim as stated fails under the default limit of 4300 digits: of \<open>1.0.\<close>
  followed by 4300 nines all three parts parse, but the incremented patch number
  \<open>10 ^ 4300\<close> has 4301 digits and the f-string raises \<open>ValueError\<close>.
\<close>

theorem increment_version_limit_counterexample:
  "py_int 4300 ''1'' = Some 1 \<and> py_int 4300 ''0'' = Some 0
   \<and> py_int 4300 (replicate 4300 CHR ''9'') = Some (10 ^ 4300 - 1)
   \<and> increment_version 4300 (''1.0.'' @ replicate 4300 CHR ''9'') = Inl ValueError"
proof -
  have m: "(0::nat) < 4300" by simp
  show ?thesis
    by (intro conjI increment_version_nines m)
qed

text \<open>
  The amended claim under the default limit at \<open>01.0.9\<close>, where the major number is
  written with a leading zero and the patch number gains a digit, and at \<open>1.0\<close>.
\<close>

theorem increment_version_patch_witness:
  "py_int 4300 ''01'' = Some 1 \<and> py_int 4300 ''0'' = Some 0 \<and> py_int 4300 ''9'' = Some 9
   \<and> \<not> over_limit 4300 (decimal_digits (9 + 1))
   \<and> increment_version 4300 ''01.0.9'' = Inr ''1.0.10''
   \<and> map (py_int 4300) (split_on CHR ''.'' ''1.0.10'') = [Some 1, Some 0, Some 10]
   \<and> length (split_on CHR ''.'' ''1.0'') \<noteq> 3
   \<and> increment_version 4300 ''1.0'' = Inr ''1.0''"
proof -
  have h: "py_int 4300 ''01'' = Some 1 \<and> py_int 4300 ''0'' = Some 0 \<and> py_int 4300 ''9'' = Some 9"
    by (simp add: py_int_def over_limit_def int_literal_def strip_int_space_def is_int_space_def
        is_digit_def digit_value_def)
  have s: "decimal_text 1 = ''1''" "decimal_text 0 = ''0''" "decimal_text (9 + 1) = ''10''"
    by (simp_all add: decimal_text_def str_nat.simps digit_char_def)
  have d: "decimal_digits (9 + 1) = 2"
    by (simp add: decimal_digits_def str_nat.simps)
  then have o: "\<not> over_limit 4300 (decimal_digits (9 + 1))"
    by (simp add: over_limit_def)
  have n: "length (split_on CHR ''.'' ''1.0'') \<noteq> 3"
    by simp
  from h o n s increment_version_patch [of 4300 "''01''" 1 "''0''" 0 "''9''" 9 "''1.0''"]
  show ?thesis by simp
qed

section \<open>The lines \<open>update_version_in_files\<close> leaves alone\<close>

text \<open>The loop keeps the number of lines and changes the first line with the prefix only.\<close>

lemma replace_first_length: "length (replace_first pre new ls) = length ls"
  by (induction ls) auto

lemma replace_first_nth:
  "j < length ls \<Longrightarrow>
   replace_first pre new ls ! j =
     (if startswith (ls ! j) pre \<and> (\<forall>k<j. \<not> startswith (ls ! k) pre) then new else ls ! j)"
proof (induction ls arbitrary: j)
  case Nil
  then show ?case by simp
next
  case (Cons l ls)
  show ?case
  proof (cases "startswith l pre")
    case True
    then show ?thesis by (cases j) auto
  next
    case False
    show ?thesis
    proof (cases j)
      case 0
      with False show ?thesis by simp
    next
      case (Suc i)
      with Cons.prems have i: "i < length ls" by simp
      have "(\<forall>k<Suc i. \<not> startswith ((l # ls) ! k) pre) \<longleftrightarrow> (\<forall>k<i. \<not> startswith (ls ! k) pre)"
        using False by (auto simp: less_Suc_eq_0_disj)
      with Cons.IH [OF i] False Suc show ?thesis by auto
    qed
  qed
qed

text \<open>
  Text mode is invisible on a file without carriage returns when the line separator is
  the line feed.
\<close>

lemma universal_newlines_no_CR: "CR \<notin> set s \<Longrightarrow> universal_newlines s = s"
  by (induction s rule: universal_newlines.induct) auto

lemma write_newlines_LF: "write_newlines [LF] s = s"
  by (induction s) (auto simp: write_newlines_def)

lemma paths_distinct: "pyproject_path \<noteq> init_path"
  by (simp add: pyproject_path_def init_path_def)

text \<open>The rewritten text, line by line.\<close>

lemma rewrite_line_lines:
  "\<exists>ls'. rewrite_line pre new content = join [LF] ls'
      \<and> length ls' = length (split_on LF content)
      \<and> (\<forall>j<length ls'. ls' ! j =
            (if startswith (split_on LF content ! j) pre
                \<and> (\<forall>k<j. \<not> startswith (split_on LF content ! k) pre)
             then new else split_on LF content ! j))"
  unfolding rewrite_line_def
  by (rule exI [of _ "replace_first pre new (split_on LF content)"])
     (simp add: replace_first_length replace_first_nth)

text \<open>What a successful run leaves in each file, with the line feed as line separator.\<close>

lemma update_version_in_files_posix:
  assumes "update_version_in_files [LF] new_version files = Inr files'"
  shows "\<exists>raw. files pyproject_path = Some raw
           \<and> files' pyproject_path =
               Some (rewrite_line ''version'' (version_line new_version) (universal_newlines raw))"
    and "files' init_path =
           map_option (\<lambda>raw. rewrite_line ''__version__'' (init_version_line new_version)
                                 (universal_newlines raw)) (files init_path)"
    and "path \<noteq> pyproject_path \<Longrightarrow> path \<noteq> init_path \<Longrightarrow> files' path = files path"
  using assms paths_distinct
  by (auto simp: update_version_in_files_def read_text_def write_text_def write_newlines_LF Let_def
      split: option.splits)

text \<open>
  Claim C9, amended. Let the platform's line separator be the line feed and let neither
  file hold a carriage return. After a successful run every file other than
  \<open>pyproject.toml\<close> and \<open>inter_service_sdk/__init__.py\<close> is as it was;
  \<open>pyproject.toml\<close> holds its old lines, joined by line feeds, except that the first
  line starting with \<open>version\<close> is now the new version line;
  \<open>inter_service_sdk/__init__.py\<close> is still absent if it was absent, and otherwise
  holds its old lines except that the first line starting with \<open>__version__\<close> is now
  the new one. No other line changes in either file.
\<close>

theorem update_version_in_files_frame:
  assumes "update_version_in_files [LF] new_version files = Inr files'"
    and "\<forall>raw. files pyproject_path = Some raw \<longrightarrow> CR \<notin> set raw"
    and "\<forall>raw. files init_path = Some raw \<longrightarrow> CR \<notin> set raw"
  shows "(\<forall>path. path \<noteq> pyproject_path \<and> path \<noteq> init_path \<longrightarrow> files' path = files path)
    \<and> (\<exists>raw ls'. files pyproject_path = Some raw \<and> files' pyproject_path = Some (join [LF] ls')
          \<and> length ls' = length (split_on LF raw)
          \<and> (\<forall>j<length ls'. ls' ! j =
                (if startswith (split_on LF raw ! j) ''version''
                    \<and> (\<forall>k<j. \<not> startswith (split_on LF raw ! k) ''version'')
                 then version_line new_version else split_on LF raw ! j)))
    \<and> (files init_path = None \<longrightarrow> files' init_path = None)
    \<and> (\<forall>raw. files init_path = Some raw \<longrightarrow>
          (\<exists>ls'. files' init_path = Some (join [LF] ls')
             \<and> length ls' = length (split_on LF raw)
             \<and> (\<forall>j<length ls'. ls' ! j =
                   (if startswith (split_on LF raw ! j) ''__version__''
                       \<and> (\<forall>k<j. \<not> startswith (split_on LF raw ! k) ''__version__'')
                    then init_version_line new_version else split_on LF raw ! j))))"
proof (intro conjI allI impI)
  fix path
  assume "path \<noteq> pyproject_path \<and> path \<noteq> init_path"
  then show "files' path = files path"
    using update_version_in_files_posix(3) [OF assms(1)] by simp
next
  from update_version_in_files_posix(1) [OF assms(1)] obtain raw
    where raw: "files pyproject_path = Some raw"
      and new: "files' pyproject_path =
        Some (rewrite_line ''version'' (version_line new_version) (universal_newlines raw))"
    by blast
  from raw assms(2) have "universal_newlines raw = raw"
    by (simp add: universal_newlines_no_CR)
  with raw new rewrite_line_lines [of "''version''" "version_line new_version" raw]
  show "\<exists>raw ls'. files pyproject_path = Some raw \<and> files' pyproject_path = Some (join [LF] ls')
          \<and> length ls' = length (split_on LF raw)
          \<and> (\<forall>j<length ls'. ls' ! j =
                (if startswith (split_on LF raw ! j) ''version''
                    \<and> (\<forall>k<j. \<not> startswith (split_on LF raw ! k) ''version'')
                 then version_line new_version else split_on LF raw ! j))"
    by auto
next
  assume "files init_path = None"
  then show "files' init_path = None"
    using update_version_in_files_posix(2) [OF assms(1)] by simp
next
  fix raw
  assume raw: "files init_path = Some raw"
  with assms(3) have "universal_newlines raw = raw"
    by (simp add: universal_newlines_no_CR)
  with raw update_version_in_files_posix(2) [OF assms(1)]
    rewrite_line_lines [of "''__version__''" "init_version_line new_version" raw]
  show "\<exists>ls'. files' init_path = Some (join [LF] ls')
             \<and> length ls' = length (split_on LF raw)
             \<and> (\<forall>j<length ls'. ls' ! j =
                   (if startswith (split_on LF raw ! j) ''__version__''
                       \<and> (\<forall>k<j. \<not> startswith (split_on LF raw ! k) ''__version__'')
                    then init_version_line new_version else split_on LF raw ! j))"
    by auto
qed

text \<open>
  The claim as stated fails on a file with \<open>\r\n\<close> line ends: reading in text mode
  drops the carriage return of every line, so the first line of this
  \<open>pyproject.toml\<close>, which does not start with \<open>version\<close>, is written back
  one character shorter.
\<close>

theorem update_version_in_files_crlf_counterexample:
  "update_version_in_files [LF] ''1.0.1''
      [pyproject_path \<mapsto> ''name = x'' @ [CR, LF] @ ''version = '' @ [DQ] @ ''1.0.0'' @ [DQ]]
    = Inr [pyproject_path \<mapsto> ''name = x'' @ [LF] @ ''version = '' @ [DQ] @ ''1.0.1'' @ [DQ]]
   \<and> split_on LF (''name = x'' @ [CR, LF] @ ''version = '' @ [DQ] @ ''1.0.0'' @ [DQ]) ! 0
        = ''name = x'' @ [CR]
   \<and> split_on LF (''name = x'' @ [LF] @ ''version = '' @ [DQ] @ ''1.0.1'' @ [DQ]) ! 0
        = ''name = x''
   \<and> \<not> startswith (''name = x'' @ [CR]) ''version''
   \<and> ''name = x'' @ [CR] \<noteq> ''name = x''"
proof -
  have "rewrite_line ''version'' (version_line ''1.0.1'')
        (universal_newlines (''name = x'' @ [CR, LF] @ ''version = '' @ [DQ] @ ''1.0.0'' @ [DQ]))
      = ''name = x'' @ [LF] @ ''version = '' @ [DQ] @ ''1.0.1'' @ [DQ]"
    by code_simp
  then have "update_version_in_files [LF] ''1.0.1''
      [pyproject_path \<mapsto> ''name = x'' @ [CR, LF] @ ''version = '' @ [DQ] @ ''1.0.0'' @ [DQ]]
    = Inr [pyproject_path \<mapsto> ''name = x'' @ [LF] @ ''version = '' @ [DQ] @ ''1.0.1'' @ [DQ]]"
    using paths_distinct
    by (simp add: update_version_in_files_def read_text_def write_text_def write_newlines_LF)
  moreover have "split_on LF (''name = x'' @ [CR, LF] @ ''version = '' @ [DQ] @ ''1.0.0'' @ [DQ]) ! 0
        = ''name = x'' @ [CR]"
    by code_simp
  moreover have "split_on LF (''name = x'' @ [LF] @ ''version = '' @ [DQ] @ ''1.0.1'' @ [DQ]) ! 0
        = ''name = x''"
    by code_simp
  moreover have "\<not> startswith (''name = x'' @ [CR]) ''version''"
    by code_simp
  ultimately show ?thesis by simp
qed

text \<open>
  The amended claim on a project with both files: \<open>versions = 2\<close> also starts with
  \<open>version\<close> and is left alone, being the second such line.
\<close>

theorem update_version_in_files_frame_witness:
  "update_version_in_files [LF] ''1.0.1''
      [pyproject_path \<mapsto> ''name = x'' @ [LF] @ ''version = '' @ [DQ] @ ''1.0.0'' @ [DQ]
                          @ [LF] @ ''versions = 2'',
       init_path \<mapsto> ''__version__ = '' @ [DQ] @ ''1.0.0'' @ [DQ] @ [LF]]
    = Inr [pyproject_path \<mapsto> ''name = x'' @ [LF] @ ''version = '' @ [DQ] @ ''1.0.1'' @ [DQ]
                          @ [LF] @ ''versions = 2'',
           init_path \<mapsto> ''__version__ = '' @ [DQ] @ ''1.0.1'' @ [DQ] @ [LF]]
   \<and> CR \<notin> set (''name = x'' @ [LF] @ ''version = '' @ [DQ] @ ''1.0.0'' @ [DQ]
                    @ [LF] @ ''versions = 2'')
   \<and> CR \<notin> set (''__version__ = '' @ [DQ] @ ''1.0.0'' @ [DQ] @ [LF])
   \<and> split_on LF (''name = x'' @ [LF] @ ''version = '' @ [DQ] @ ''1.0.0'' @ [DQ]
                    @ [LF] @ ''versions = 2'')
       = [''name = x'', ''version = '' @ [DQ] @ ''1.0.0'' @ [DQ], ''versions = 2'']
   \<and> ''name = x'' @ [LF] @ ''version = '' @ [DQ] @ ''1.0.1'' @ [DQ] @ [LF] @ ''versions = 2''
       = join [LF] [''name = x'', version_line ''1.0.1'', ''versions = 2'']"
proof -
  let ?p = "''name = x'' @ [LF] @ ''version = '' @ [DQ] @ ''1.0.0'' @ [DQ] @ [LF] @ ''versions = 2''"
  let ?i = "''__version__ = '' @ [DQ] @ ''1.0.0'' @ [DQ] @ [LF]"
  let ?files = "[pyproject_path \<mapsto> ?p, init_path \<mapsto> ?i]"
  have p: "rewrite_line ''version'' (version_line ''1.0.1'') (universal_newlines ?p)
      = ''name = x'' @ [LF] @ ''version = '' @ [DQ] @ ''1.0.1'' @ [DQ] @ [LF] @ ''versions = 2''"
    by code_simp
  have i: "rewrite_line ''__version__'' (init_version_line ''1.0.1'') (universal_newlines ?i)
      = ''__version__ = '' @ [DQ] @ ''1.0.1'' @ [DQ] @ [LF]"
    by code_simp
  have run: "update_version_in_files [LF] ''1.0.1'' ?files
    = Inr [pyproject_path \<mapsto> ''name = x'' @ [LF] @ ''version = '' @ [DQ] @ ''1.0.1'' @ [DQ]
                          @ [LF] @ ''versions = 2'',
           init_path \<mapsto> ''__version__ = '' @ [DQ] @ ''1.0.1'' @ [DQ] @ [LF]]"
    using paths_distinct p i
    by (simp add: update_version_in_files_def read_text_def write_text_def write_newlines_LF
        fun_upd_twist)
  have c1: "CR \<notin> set ?p" and c2: "CR \<notin> set ?i"
    by code_simp+
  have h1: "\<forall>raw. ?files pyproject_path = Some raw \<longrightarrow> CR \<notin> set raw"
    using paths_distinct c1 by simp
  have h2: "\<forall>raw. ?files init_path = Some raw \<longrightarrow> CR \<notin> set raw"
    using c2 by simp
  have s: "split_on LF ?p = [''name = x'', ''version = '' @ [DQ] @ ''1.0.0'' @ [DQ], ''versions = 2'']"
    by code_simp
  have j: "''name = x'' @ [LF] @ ''version = '' @ [DQ] @ ''1.0.1'' @ [DQ] @ [LF] @ ''versions = 2''
       = join [LF] [''name = x'', version_line ''1.0.1'', ''versions = 2'']"
    by code_simp
  from run c1 c2 s j update_version_in_files_frame [OF run h1 h2]
  show ?thesis by blast
qed

section \<open>Idempotence of the dependency-pinning substitution\<close>

text \<open>A match is the literal, one digit or dot, and the digits and dots that follow.\<close>

lemma match_pin_Some:
  "match_pin s = Some rest \<longleftrightarrow>
     (\<exists>d ds. s = pin_prefix @ d # ds \<and> is_pin_char d \<and> rest = dropWhile is_pin_char ds)"
proof
  assume m: "match_pin s = Some rest"
  then have sw: "take (length pin_prefix) s = pin_prefix"
    by (simp add: match_pin_def startswith_def split: if_splits)
  from m obtain d ds where d: "drop (length pin_prefix) s = d # ds" "is_pin_char d"
      "rest = dropWhile is_pin_char ds"
    by (auto simp: match_pin_def split: if_splits list.splits)
  have "s = take (length pin_prefix) s @ drop (length pin_prefix) s"
    by simp
  with sw d show "\<exists>d ds. s = pin_prefix @ d # ds \<and> is_pin_char d \<and> rest = dropWhile is_pin_char ds"
    by metis
next
  assume "\<exists>d ds. s = pin_prefix @ d # ds \<and> is_pin_char d \<and> rest = dropWhile is_pin_char ds"
  then show "match_pin s = Some rest"
    by (auto simp: match_pin_def startswith_def)
qed

lemma sub_pin_match:
  "match_pin (c # cs) = Some rest \<Longrightarrow> sub_pin r (c # cs) = r @ sub_pin r rest"
  by (simp add: sub_pin.simps)

lemma sub_pin_no_match:
  "match_pin (c # cs) = None \<Longrightarrow> sub_pin r (c # cs) = c # sub_pin r cs"
  by (simp add: sub_pin.simps)

lemma sub_pin_Nil: "sub_pin r [] = []"
  by (simp add: sub_pin.simps)

lemma i_not_pin_char: "\<not> is_pin_char CHR ''i''"
  by (simp add: is_pin_char_def is_digit_def)

lemma pin_prefix_Cons: "pin_prefix = CHR ''i'' # CHR ''n'' # ''ter-service-sdk==''"
  by (simp add: pin_prefix_def)

text \<open>
  Text that does not start with a digit or a dot is rewritten to text that does not
  either: the result starts with the same character or with a replacement.
\<close>

lemma sub_pin_head:
  assumes "takeWhile is_pin_char s = []"
  shows "takeWhile is_pin_char (sub_pin (pin_prefix @ v) s) = []"
proof (cases s)
  case Nil
  then show ?thesis by (simp add: sub_pin_Nil)
next
  case (Cons c cs)
  with assms have c: "\<not> is_pin_char c" by (auto split: if_splits)
  show ?thesis
  proof (cases "match_pin (c # cs)")
    case None
    with Cons c show ?thesis by (simp add: sub_pin_no_match)
  next
    case (Some rest)
    with Cons show ?thesis
      by (simp add: sub_pin_match pin_prefix_Cons i_not_pin_char)
  qed
qed

lemma takeWhile_dropWhile_Nil: "takeWhile P (dropWhile P xs) = []"
  by (induction xs) auto

text \<open>
  Scanning the literal followed by no digit or dot copies it: there is no match at its
  start, and none inside it, since no proper suffix of the literal starts the literal.
\<close>

lemma match_pin_prefix_only:
  assumes "takeWhile is_pin_char t = []"
  shows "match_pin (pin_prefix @ t) = None"
  using assms by (cases t) (auto simp: match_pin_def split: if_splits)

lemma sub_pin_through_prefix:
  assumes "takeWhile is_pin_char t = []"
  shows "sub_pin r (pin_prefix @ t) = pin_prefix @ sub_pin r t"
proof -
  have tail: "sub_pin r (''nter-service-sdk=='' @ t) = ''nter-service-sdk=='' @ sub_pin r t"
    by (simp add: sub_pin.simps match_pin_def startswith_def pin_prefix_def)
  have "match_pin (CHR ''i'' # ''nter-service-sdk=='' @ t) = None"
    using match_pin_prefix_only [OF assms] by (simp add: pin_prefix_def)
  then have "sub_pin r (CHR ''i'' # ''nter-service-sdk=='' @ t)
      = CHR ''i'' # sub_pin r (''nter-service-sdk=='' @ t)"
    by (rule sub_pin_no_match)
  with tail show ?thesis by (simp add: pin_prefix_def)
qed

text \<open>Scanning a replacement that is followed by no digit or dot writes it again.\<close>

lemma sub_pin_replacement:
  assumes v: "\<forall>c\<in>set v. is_pin_char c" and t: "takeWhile is_pin_char t = []"
  shows "sub_pin (pin_prefix @ v) (pin_prefix @ v @ t) = pin_prefix @ v @ sub_pin (pin_prefix @ v) t"
proof (cases v)
  case Nil
  with t show ?thesis by (simp add: sub_pin_through_prefix)
next
  case (Cons d ds)
  have "dropWhile is_pin_char (ds @ t) = t"
    using v t Cons by (induction ds) (auto simp: dropWhile_eq_self_iff takeWhile_eq_Nil_iff)
  with v Cons have "match_pin (pin_prefix @ v @ t) = Some t"
    by (subst match_pin_Some) auto
  moreover have "pin_prefix @ v @ t = CHR ''i'' # tl (pin_prefix @ v @ t)"
    by (simp add: pin_prefix_def)
  ultimately show ?thesis
    by (metis sub_pin_match append.assoc)
qed

text \<open>
  Reading the input back from the result: where the result shows a character that a
  replacement cannot start with, the input shows the same character.
\<close>

lemma sub_pin_out_Cons:
  assumes "sub_pin (pin_prefix @ v) cs = x # rest" and "x \<noteq> CHR ''i''"
  shows "\<exists>cs'. cs = x # cs' \<and> sub_pin (pin_prefix @ v) cs' = rest"
proof (cases cs)
  case Nil
  with assms show ?thesis by (simp add: sub_pin_Nil)
next
  case (Cons c cs')
  show ?thesis
  proof (cases "match_pin (c # cs')")
    case None
    with assms Cons show ?thesis by (simp add: sub_pin_no_match)
  next
    case (Some r)
    with assms Cons show ?thesis by (simp add: sub_pin_match pin_prefix_Cons)
  qed
qed

lemma sub_pin_out_Cons2:
  assumes "sub_pin (pin_prefix @ v) cs = x # y # rest" and "y \<noteq> CHR ''n''"
  shows "\<exists>cs'. cs = x # cs' \<and> sub_pin (pin_prefix @ v) cs' = y # rest"
proof (cases cs)
  case Nil
  with assms show ?thesis by (simp add: sub_pin_Nil)
next
  case (Cons c cs')
  show ?thesis
  proof (cases "match_pin (c # cs')")
    case None
    with assms Cons show ?thesis by (simp add: sub_pin_no_match)
  next
    case (Some r)
    with assms Cons show ?thesis by (simp add: sub_pin_match pin_prefix_Cons)
  qed
qed

lemma sub_pin_out_append:
  assumes "sub_pin (pin_prefix @ v) cs = w @ rest" and "CHR ''i'' \<notin> set w"
  shows "\<exists>cs'. cs = w @ cs' \<and> sub_pin (pin_prefix @ v) cs' = rest"
  using assms
proof (induction w arbitrary: cs)
  case Nil
  then show ?case by simp
next
  case (Cons x w)
  from Cons.prems obtain cs1 where cs1: "cs = x # cs1" "sub_pin (pin_prefix @ v) cs1 = w @ rest"
    using sub_pin_out_Cons [of v cs x "w @ rest"] by auto
  with Cons.IH [of cs1] Cons.prems(2) show ?case by auto
qed

text \<open>A match in the result after a copied character was a match in the input.\<close>

lemma match_pin_reflect:
  assumes "match_pin (c # sub_pin (pin_prefix @ v) cs) = Some x"
  shows "match_pin (c # cs) \<noteq> None"
proof -
  let ?r = "pin_prefix @ v"
  from assms obtain d ds where out: "c # sub_pin ?r cs = pin_prefix @ d # ds" and d: "is_pin_char d"
    by (auto simp: match_pin_Some)
  from out have c: "c = CHR ''i''"
    and o1: "sub_pin ?r cs = ''nter-serv'' @ (CHR ''i'' # CHR ''c'' # ''e-sdk=='' @ d # ds)"
    by (simp_all add: pin_prefix_def)
  from o1 obtain cs1 where cs1: "cs = ''nter-serv'' @ cs1"
    "sub_pin ?r cs1 = CHR ''i'' # CHR ''c'' # ''e-sdk=='' @ d # ds"
    using sub_pin_out_append [of v cs "''nter-serv''"] by auto
  from cs1(2) obtain cs2 where cs2: "cs1 = CHR ''i'' # cs2"
    "sub_pin ?r cs2 = (''ce-sdk=='' @ [d]) @ ds"
    using sub_pin_out_Cons2 [of v cs1 "CHR ''i''" "CHR ''c''"] by auto
  from d have "d \<noteq> CHR ''i''"
    using i_not_pin_char by auto
  with cs2(2) obtain cs3 where cs3: "cs2 = (''ce-sdk=='' @ [d]) @ cs3"
    using sub_pin_out_append [of v cs2 "''ce-sdk=='' @ [d]" ds] by auto
  from c cs1(1) cs2(1) cs3 have "c # cs = pin_prefix @ d # cs3"
    by (simp add: pin_prefix_def)
  with d have "match_pin (c # cs) = Some (dropWhile is_pin_char cs3)"
    by (subst match_pin_Some) blast
  then show ?thesis by simp
qed

lemma sub_pin_idem:
  assumes v: "\<forall>c\<in>set v. is_pin_char c"
  shows "sub_pin (pin_prefix @ v) (sub_pin (pin_prefix @ v) s) = sub_pin (pin_prefix @ v) s"
proof (induction "pin_prefix @ v" s rule: sub_pin.induct)
  case 1
  show ?case by (simp add: sub_pin_Nil)
next
  case (2 c cs)
  let ?r = "pin_prefix @ v"
  show ?case
  proof (cases "match_pin (c # cs)")
    case None
    with 2 have ih: "sub_pin ?r (sub_pin ?r cs) = sub_pin ?r cs" by simp
    have "match_pin (c # sub_pin ?r cs) = None"
      using match_pin_reflect [of c v cs] None by (cases "match_pin (c # sub_pin ?r cs)") auto
    with None ih show ?thesis by (simp add: sub_pin_no_match)
  next
    case (Some rest)
    with 2 have ih: "sub_pin ?r (sub_pin ?r rest) = sub_pin ?r rest" by simp
    from Some have "takeWhile is_pin_char rest = []"
      by (auto simp: match_pin_Some takeWhile_dropWhile_Nil)
    then have "takeWhile is_pin_char (sub_pin ?r rest) = []"
      by (rule sub_pin_head)
    with v have "sub_pin ?r (pin_prefix @ v @ sub_pin ?r rest) = pin_prefix @ v @ sub_pin ?r (sub_pin ?r rest)"
      by (rule sub_pin_replacement)
    with Some ih show ?thesis by (simp add: sub_pin_match)
  qed
qed

lemma pin_char_not_backslash: "is_pin_char c \<Longrightarrow> c \<noteq> CHR 0x5C"
  by (auto simp: is_pin_char_def is_digit_def)

lemma pin_prefix_no_backslash: "CHR 0x5C \<notin> set pin_prefix"
  by (simp add: pin_prefix_def)

text \<open>
  Claim C10. When \<open>new_version\<close> consists only of digits and dots, the substitution
  of \<open>update_dependent_projects\<close> is idempotent: on every text it yields a result,
  and applied to that result it yields the same result again.
\<close>

theorem pin_substitution_idempotent:
  assumes "\<forall>c\<in>set new_version. is_digit c \<or> c = CHR ''.''"
  shows "\<exists>once. re_sub_pin new_version content = Some once
           \<and> re_sub_pin new_version once = Some once"
proof -
  from assms have v: "\<forall>c\<in>set new_version. is_pin_char c"
    by (simp add: is_pin_char_def)
  then have "CHR 0x5C \<notin> set new_version"
    using pin_char_not_backslash by blast
  then have "CHR 0x5C \<notin> set (pin_prefix @ new_version)"
    using pin_prefix_no_backslash by simp
  with sub_pin_idem [OF v, of content] show ?thesis
    by (simp add: re_sub_pin_def Let_def)
qed

text \<open>The theorem at the version \<open>1.0.1\<close> and a requirement pinned to \<open>1.0.0\<close>.\<close>

theorem pin_substitution_idempotent_witness:
  "list_all (\<lambda>c. is_digit c \<or> c = CHR ''.'') ''1.0.1''
   \<and> re_sub_pin ''1.0.1'' ''x inter-service-sdk==1.0.0'' = Some ''x inter-service-sdk==1.0.1''
   \<and> re_sub_pin ''1.0.1'' ''x inter-service-sdk==1.0.1'' = Some ''x inter-service-sdk==1.0.1''"
proof -
  have h: "\<forall>c\<in>set ''1.0.1''. is_digit c \<or> c = CHR ''.''"
    by (simp add: is_digit_def)
  have e: "re_sub_pin ''1.0.1'' ''x inter-service-sdk==1.0.0'' = Some ''x inter-service-sdk==1.0.1''"
    by code_simp
  from h e pin_substitution_idempotent [OF h, of "''x inter-service-sdk==1.0.0''"]
  show ?thesis by (simp add: list_all_iff)
qed

section \<open>Building URLs\<close>

text \<open>A missing entry fails the substitution, and the failure names a missing one.\<close>

lemma expand_missing:
  assumes "name \<in> set (placeholders items)" and "path_params name = None"
  shows "\<exists>missing. expand items path_params = Inl (MissingParameter missing)
           \<and> missing \<in> set (placeholders items) \<and> path_params missing = None"
  using assms
proof (induction items path_params rule: expand.induct)
  case (1 path_params)
  then show ?case by simp
next
  case (2 c items path_params)
  then show ?case by auto
next
  case (3 n items path_params)
  show ?case
  proof (cases "path_params n")
    case None
    then show ?thesis by auto
  next
    case (Some v)
    with 3 have "name \<in> set (placeholders items)" by auto
    with 3 Some show ?thesis by auto
  qed
qed

text \<open>
  How a template is read: text without an opening brace is text, and \<open>{name}\<close> is a
  placeholder when \<open>name\<close> holds no closing brace. So a template whose first placeholder
  has no entry fails with that placeholder's name.
\<close>

lemma parse_template_text:
  "CHR ''{'' \<notin> set pre \<Longrightarrow> parse_template (pre @ rest) = map Text pre @ parse_template rest"
  by (induction pre) (auto simp: parse_template.simps)

lemma parse_template_placeholder:
  assumes "CHR ''}'' \<notin> set name"
  shows "parse_template (''{'' @ name @ ''}'' @ rest) = Placeholder name # parse_template rest"
proof -
  have "takeWhile (\<lambda>x. x \<noteq> CHR ''}'') (name @ CHR ''}'' # rest) = name"
    using assms by (induction name) auto
  moreover have "dropWhile (\<lambda>x. x \<noteq> CHR ''}'') (name @ CHR ''}'' # rest) = CHR ''}'' # rest"
    using assms by (induction name) auto
  ultimately show ?thesis
    by (simp add: parse_template.simps)
qed

lemma build_missing_first_placeholder:
  assumes "CHR ''{'' \<notin> set pre" and "CHR ''}'' \<notin> set name" and "path_params name = None"
  shows "build base_url prefix (pre @ ''{'' @ name @ ''}'' @ rest) path_params query_params
           = Inl (URLBuildError (MissingParameter name))"
proof -
  have e: "expand (map Text pre @ items) path_params =
        (case expand items path_params of Inl p \<Rightarrow> Inl p | Inr r \<Rightarrow> Inr (pre @ r))" for items
    by (induction pre) (auto split: sum.splits)
  have "parse_template (pre @ ''{'' @ name @ ''}'' @ rest)
      = map Text pre @ Placeholder name # parse_template rest"
    using assms(1,2) parse_template_text parse_template_placeholder by simp
  with assms(3) show ?thesis
    by (simp add: build_def e)
qed

text \<open>
  Claim C5. Building with endpoint template \<open>users/{user_id}\<close>, path parameters
  \<open>{"user_id": 123}\<close>, prefix \<open>/api/v1\<close> and base \<open>https://x.test\<close> yields exactly
  \<open>https://x.test/api/v1/users/123\<close>. And for every template with a placeholder that has
  no entry in the path parameters, whatever the base, prefix and query, building fails
  with a \<open>URLBuildError\<close> that names a placeholder of the template without an entry (the
  missing one, when there is one only).
\<close>

theorem build_url_example_and_missing:
  "build ''https://x.test'' ''/api/v1'' ''users/{user_id}'' [''user_id'' \<mapsto> IntValue 123] []
     = Inr ''https://x.test/api/v1/users/123''
   \<and> (name \<in> set (placeholders (parse_template template)) \<and> path_params name = None \<longrightarrow>
        (\<exists>missing. build base_url prefix template path_params query_params
                      = Inl (URLBuildError (MissingParameter missing))
           \<and> missing \<in> set (placeholders (parse_template template))
           \<and> path_params missing = None))"
proof (intro conjI impI)
  show "build ''https://x.test'' ''/api/v1'' ''users/{user_id}'' [''user_id'' \<mapsto> IntValue 123] []
     = Inr ''https://x.test/api/v1/users/123''"
    by code_simp
next
  assume "name \<in> set (placeholders (parse_template template)) \<and> path_params name = None"
  then obtain missing where "expand (parse_template template) path_params = Inl (MissingParameter missing)"
    "missing \<in> set (placeholders (parse_template template))" "path_params missing = None"
    using expand_missing by blast
  then show "\<exists>missing. build base_url prefix template path_params query_params
                      = Inl (URLBuildError (MissingParameter missing))
           \<and> missing \<in> set (placeholders (parse_template template))
           \<and> path_params missing = None"
    by (auto simp: build_def)
qed

text \<open>The second half at the template of the example, with no path parameters at all.\<close>

theorem build_url_example_and_missing_witness:
  "''user_id'' \<in> set (placeholders (parse_template ''users/{user_id}''))
   \<and> build ''https://x.test'' ''/api/v1'' ''users/{user_id}'' Map.empty []
       = Inl (URLBuildError (MissingParameter ''user_id''))"
proof -
  have p: "placeholders (parse_template ''users/{user_id}'') = [''user_id'']"
    by code_simp
  then have h: "''user_id'' \<in> set (placeholders (parse_template ''users/{user_id}''))
      \<and> (Map.empty :: string \<rightharpoonup> param_value) ''user_id'' = None"
    by simp
  from p h build_url_example_and_missing
    [of "''user_id''" "''users/{user_id}''" Map.empty "''https://x.test''" "''/api/v1''" "[]"]
  show ?thesis by auto
qed


section \<open>The retry policy\<close>

text \<open>
  Whatever the transport does, it is handed the same request at every attempt, and at
  most \<open>retry_attempts\<close> times.
\<close>

lemma send_attempts_sent:
  "send_attempts retryable tr req n last_status sent s = (result, sent', s') \<Longrightarrow>
     \<exists>k\<le>n. sent' = sent @ replicate k req"
proof (induction n arbitrary: last_status sent s)
  case 0
  then show ?case by simp
next
  case (Suc n)
  obtain out s1 where t: "tr s req = (out, s1)" by (cases "tr s req")
  show ?case
  proof (cases out)
    case (Inl e)
    with Suc.prems t have "send_attempts retryable tr req n None (sent @ [req]) s1 = (result, sent', s')"
      by simp
    from Suc.IH [OF this] obtain k where "k \<le> n" "sent' = (sent @ [req]) @ replicate k req" by blast
    then have "Suc k \<le> Suc n \<and> sent' = sent @ replicate (Suc k) req" by simp
    then show ?thesis by blast
  next
    case (Inr response)
    show ?thesis
    proof (cases "\<not> is_2xx (status_code response) \<and> status_code response \<noteq> 401
        \<and> status_code response \<noteq> 403 \<and> status_code response \<in> retryable")
      case True
      with Suc.prems t Inr have "send_attempts retryable tr req n (Some (status_code response))
          (sent @ [req]) s1 = (result, sent', s')"
        by simp
      from Suc.IH [OF this] obtain k where "k \<le> n" "sent' = (sent @ [req]) @ replicate k req" by blast
      then have "Suc k \<le> Suc n \<and> sent' = sent @ replicate (Suc k) req" by simp
      then show ?thesis by blast
    next
      case False
      with Suc.prems t Inr have "sent' = sent @ replicate (Suc 0) req"
        by (auto split: if_splits)
      then show ?thesis by (intro exI [of _ "Suc 0"]) simp
    qed
  qed
qed

text \<open>
  Claim C6. Let the transport fail on the first two attempts with a transport-level
  error and answer the third with a 2xx status. With \<open>retry_attempts = 3\<close> the result
  is a success and the transport has seen exactly three attempts; with
  \<open>retry_attempts = 2\<close> the result is a \<open>RequestError\<close> and it has seen exactly two.
\<close>

theorem retry_policy:
  assumes "tr s0 req = (Inl e1, s1)" and "tr s1 req = (Inl e2, s2)"
    and "tr s2 req = (Inr response, s3)" and "is_2xx (status_code response)"
  shows "send_request retryable tr 3 req s0
           = (Success (status_code response) (response_body response), [req, req, req], s3)
       \<and> send_request retryable tr 2 req s0 = (Failure (RequestError None), [req, req], s2)"
  using assms by (simp add: send_request_def eval_nat_numeral)

text \<open>
  The theorem on a transport that counts its calls, times out on the first two and
  answers 200 from the third on.
\<close>

theorem retry_policy_witness:
  "send_request {} (\<lambda>n req. (if n < 2 then Inl Timeout
                               else Inr \<lparr>status_code = 200, response_body = ''ok''\<rparr>, Suc n))
       3 \<lparr>req_method = ''GET'', req_url = ''https://x.test/users'', req_headers = [],
           req_body = None, req_timeout = 30\<rparr> (0::nat)
     = (Success 200 ''ok'',
        replicate 3 \<lparr>req_method = ''GET'', req_url = ''https://x.test/users'', req_headers = [],
                      req_body = None, req_timeout = 30\<rparr>, 3)
   \<and> send_request {} (\<lambda>n req. (if n < 2 then Inl Timeout
                               else Inr \<lparr>status_code = 200, response_body = ''ok''\<rparr>, Suc n))
       2 \<lparr>req_method = ''GET'', req_url = ''https://x.test/users'', req_headers = [],
           req_body = None, req_timeout = 30\<rparr> (0::nat)
     = (Failure (RequestError None),
        replicate 2 \<lparr>req_method = ''GET'', req_url = ''https://x.test/users'', req_headers = [],
                      req_body = None, req_timeout = 30\<rparr>, 2)"
proof -
  let ?tr = "\<lambda>(n::nat) (req::http_request). (if n < 2 then Inl Timeout
                else Inr \<lparr>status_code = 200, response_body = ''ok''\<rparr>, Suc n)"
  let ?req = "\<lparr>req_method = ''GET'', req_url = ''https://x.test/users'', req_headers = [],
           req_body = None, req_timeout = 30\<rparr>"
  have a: "?tr 0 ?req = (Inl Timeout, 1)" "?tr 1 ?req = (Inl Timeout, 2)"
    "?tr 2 ?req = (Inr \<lparr>status_code = 200, response_body = ''ok''\<rparr>, 3)"
    by simp_all
  have b: "is_2xx (status_code \<lparr>status_code = 200, response_body = ''ok''\<rparr>)"
    by (simp add: is_2xx_def)
  from retry_policy [of ?tr 0 ?req Timeout 1 Timeout 2 "\<lparr>status_code = 200, response_body = ''ok''\<rparr>" 3, OF a b, of "{}"]
  show ?thesis by (simp add: eval_nat_numeral)
qed

end
